theory Spec2Isabelle
  imports Main
begin

section \<open>Data model (internal/model)\<close>

text \<open>
  A \<open>time.Time\<close> is modelled by the instant it denotes, as nanoseconds since the Unix
  epoch; its location and monotonic reading play no role in what follows.
  Go strings are byte sequences, hence \<open>string\<close>.
\<close>

type_synonym instant = int

record Message =
  SessionID :: string
  UUID :: string
  ParentUUID :: string
  Role :: string
  Content :: string
  RawContent :: string
  Model :: string
  Timestamp :: instant

record HarvestResult =
  Messages :: "Message list"
  NewOffset :: int

section \<open>The transcript harvester (internal/transcript)\<close>

subsection \<open>Records of a transcript line\<close>

text \<open>
  \<open>transcriptLine\<close> and \<open>messagePayload\<close>, field by field; the field names carry a prefix
  because \<open>Message\<close> has fields of the same names. \<open>Message *messagePayload\<close> is an option
  (\<open>None\<close> for \<open>nil\<close>), and \<open>Content json.RawMessage\<close> is the raw bytes of the value.
\<close>

record messagePayload =
  mp_Role :: string
  mp_Content :: string
  mp_Model :: string

record transcriptLine =
  tl_Type :: string
  tl_UUID :: string
  tl_Parent :: string
  tl_Message :: "messagePayload option"
  tl_Timestamp :: string

subsection \<open>Library calls\<close>

text \<open>
  \<open>encoding/json\<close> and \<open>time\<close> are not part of the repository. The four uses of
  \<open>json.Unmarshal\<close> (into a \<open>transcriptLine\<close>, a \<open>string\<close>, a \<open>[]json.RawMessage\<close>, and the
  block struct with its \<open>Type\<close> and \<open>Text\<close>) and \<open>time.Parse(time.RFC3339Nano, _)\<close> are
  parameters of the model: each maps the input bytes to the decoded value, or to \<open>None\<close>
  when the call returns an error. Everything proved below holds for every such library.
\<close>

record stdlib =
  json_line :: "string \<Rightarrow> transcriptLine option"
  json_string :: "string \<Rightarrow> string option"
  json_blocks :: "string \<Rightarrow> string list option"
  json_block :: "string \<Rightarrow> (string \<times> string) option"
  time_Parse :: "string \<Rightarrow> instant option"

definition newline :: char where
  "newline = CHR 0x0A"

definition carriage_return :: char where
  "carriage_return = CHR 0x0D"

text \<open>\<open>strings.Join\<close> puts the separator between consecutive elements.\<close>

fun strings_Join :: "string list \<Rightarrow> string \<Rightarrow> string" where
  "strings_Join [] sep = []"
| "strings_Join [x] sep = x"
| "strings_Join (x # y # ys) sep = x @ sep @ strings_Join (y # ys) sep"

subsection \<open>extractText and parseTimestamp\<close>

text \<open>The loop over \<open>blocks\<close> in \<open>extractText\<close>, with \<open>parts\<close> as the accumulator.\<close>

fun collect_parts :: "stdlib \<Rightarrow> string list \<Rightarrow> string list \<Rightarrow> string list" where
  "collect_parts lib [] parts = parts"
| "collect_parts lib (block # blocks) parts =
     (case json_block lib block of
        None \<Rightarrow> collect_parts lib blocks parts
      | Some (ty, text) \<Rightarrow>
          if ty = ''text'' \<and> text \<noteq> [] then collect_parts lib blocks (parts @ [text])
          else collect_parts lib blocks parts)"

definition extractText :: "stdlib \<Rightarrow> string \<Rightarrow> string" where
  "extractText lib raw =
     (if length raw = 0 then []
      else case json_string lib raw of
             Some s \<Rightarrow> s
           | None \<Rightarrow>
               (case json_blocks lib raw of
                  None \<Rightarrow> raw
                | Some blocks \<Rightarrow> strings_Join (collect_parts lib blocks []) [newline]))"

definition parseTimestamp :: "stdlib \<Rightarrow> string \<Rightarrow> instant \<Rightarrow> instant" where
  "parseTimestamp lib raw fallback =
     (if raw = [] then fallback
      else case time_Parse lib raw of Some t \<Rightarrow> t | None \<Rightarrow> fallback)"

subsection \<open>Files\<close>

text \<open>
  A path names nothing that can be opened (\<open>None\<close>: it is missing or access is denied), a
  regular file with its bytes, or a directory, which \<open>os.Open\<close> opens and \<open>Read\<close> refuses.
  \<open>s_maxbytes\<close> is the largest offset the file system accepts in a seek. An open file
  holds its node and its position; \<open>Read\<close> returns at most the requested number of bytes
  and advances the position, and an empty result stands for \<open>io.EOF\<close>.
\<close>

datatype fnode = Regular string | Directory

record filesystem =
  nodes :: "string \<rightharpoonup> fnode"
  s_maxbytes :: int

datatype io_error = ENOENT | EINVAL | EISDIR

record os_File =
  f_node :: fnode
  f_limit :: int
  f_pos :: nat

datatype whence = SeekStart | SeekCurrent

definition os_Open :: "filesystem \<Rightarrow> string \<Rightarrow> io_error + os_File" where
  "os_Open fs name =
     (case nodes fs name of
        None \<Rightarrow> Inl ENOENT
      | Some n \<Rightarrow> Inr \<lparr> f_node = n, f_limit = s_maxbytes fs, f_pos = 0 \<rparr>)"

definition file_Seek :: "os_File \<Rightarrow> int \<Rightarrow> whence \<Rightarrow> io_error + (int \<times> os_File)" where
  "file_Seek f off w =
     (let target = (case w of SeekStart \<Rightarrow> off | SeekCurrent \<Rightarrow> int (f_pos f) + off)
      in if target < 0 \<or> f_limit f < target then Inl EINVAL
         else Inr (target, f\<lparr>f_pos := nat target\<rparr>))"

definition file_Read :: "os_File \<Rightarrow> nat \<Rightarrow> io_error + (string \<times> os_File)" where
  "file_Read f n =
     (case f_node f of
        Directory \<Rightarrow> Inl EISDIR
      | Regular c \<Rightarrow>
          (let chunk = take n (drop (f_pos f) c)
           in Inr (chunk, f\<lparr>f_pos := f_pos f + length chunk\<rparr>)))"

subsection \<open>bufio.Scanner with ScanLines\<close>

text \<open>
  The scanner's state is the unconsumed part of its buffer (\<open>s.buf[s.start:s.end]\<close>) and its
  sticky error \<open>s.err\<close>. \<open>Scan\<close> follows the library's loop: offer the buffer to the split
  function; without a token, stop if an error is set, fail with \<open>ErrTooLong\<close> if the buffer
  is full at its maximum size, and read more otherwise. The growth of the buffer from its
  initial to its maximum size only changes how much each read asks for, so a read here
  asks for all the room left below \<open>maxTokenSize\<close>.
\<close>

datatype scan_error = EOF | ErrTooLong | ReadError io_error

record Scanner =
  sc_buf :: string
  sc_err :: "scan_error option"

definition NewScanner :: Scanner where
  "NewScanner = \<lparr> sc_buf = [], sc_err = None \<rparr>"

definition dropCR :: "string \<Rightarrow> string" where
  "dropCR data = (if data \<noteq> [] \<and> last data = carriage_return then butlast data else data)"

definition ScanLines :: "string \<Rightarrow> bool \<Rightarrow> (nat \<times> string) option" where
  "ScanLines data atEOF =
     (if atEOF \<and> data = [] then None
      else if newline \<in> set data
        then (let i = length (takeWhile (\<lambda>c. c \<noteq> newline) data)
              in Some (i + 1, dropCR (take i data)))
      else if atEOF then Some (length data, dropCR data)
      else None)"

text \<open>The bytes not yet read, which bound the number of reads.\<close>

definition remaining :: "os_File \<Rightarrow> nat" where
  "remaining f = (case f_node f of Regular c \<Rightarrow> length c - f_pos f | Directory \<Rightarrow> 0)"

function Scan :: "nat \<Rightarrow> os_File \<Rightarrow> Scanner \<Rightarrow> string option \<times> os_File \<times> Scanner" where
  "Scan maxTokenSize f s =
     (case (if sc_buf s \<noteq> [] \<or> sc_err s \<noteq> None
            then ScanLines (sc_buf s) (sc_err s \<noteq> None) else None) of
        Some (advance, token) \<Rightarrow> (Some token, f, s\<lparr>sc_buf := drop advance (sc_buf s)\<rparr>)
      | None \<Rightarrow>
          if sc_err s \<noteq> None then (None, f, s\<lparr>sc_buf := []\<rparr>)
          else if maxTokenSize \<le> length (sc_buf s) then (None, f, s\<lparr>sc_err := Some ErrTooLong\<rparr>)
          else (case file_Read f (maxTokenSize - length (sc_buf s)) of
                  Inl e \<Rightarrow> Scan maxTokenSize f (s\<lparr>sc_err := Some (ReadError e)\<rparr>)
                | Inr (chunk, f') \<Rightarrow>
                    if chunk = [] then Scan maxTokenSize f' (s\<lparr>sc_err := Some EOF\<rparr>)
                    else Scan maxTokenSize f' (s\<lparr>sc_buf := sc_buf s @ chunk\<rparr>)))"
  by pat_completeness auto
termination
  apply (relation "measure (\<lambda>(m, f, s). 2 * remaining f + (if sc_err s = None then 1 else 0))")
     apply (auto simp: file_Read_def remaining_def Let_def split: fnode.splits)
  done

declare Scan.simps [simp del]

lemma ScanLines_advance:
  "ScanLines data atEOF = Some (advance, token) \<Longrightarrow> 0 < advance \<and> advance \<le> length data"
proof -
  assume a: "ScanLines data atEOF = Some (advance, token)"
  have "newline \<in> set data \<Longrightarrow> length (takeWhile (\<lambda>c. c \<noteq> newline) data) < length data"
    by (induction data) auto
  with a show ?thesis
    by (auto simp: ScanLines_def Let_def split: if_splits)
qed

lemma file_Read_remaining:
  "file_Read f n = Inr (chunk, f') \<Longrightarrow>
     remaining f' + length chunk = remaining f \<and> f_node f' = f_node f \<and> f_limit f' = f_limit f"
  by (auto simp: file_Read_def remaining_def Let_def split: fnode.splits)

lemma Scan_token_progress:
  "Scan m f s = (Some t, f', s') \<Longrightarrow>
     length (sc_buf s') + remaining f' < length (sc_buf s) + remaining f"
proof (induction m f s rule: Scan.induct)
  case (1 m f s)
  let ?split = "if sc_buf s \<noteq> [] \<or> sc_err s \<noteq> None
                then ScanLines (sc_buf s) (sc_err s \<noteq> None) else None"
  show ?case
  proof (cases ?split)
    case (Some at)
    obtain advance token where at: "at = (advance, token)" by (cases at)
    from Some at have "ScanLines (sc_buf s) (sc_err s \<noteq> None) = Some (advance, token)"
      by (auto split: if_splits)
    from ScanLines_advance[OF this] have adv: "0 < advance" "advance \<le> length (sc_buf s)" by auto
    from "1.prems" Some at have "f' = f" "s' = s\<lparr>sc_buf := drop advance (sc_buf s)\<rparr>"
      by (simp_all add: Scan.simps[of m f s])
    with adv show ?thesis by simp
  next
    case None
    note split_none = None
    show ?thesis
    proof (cases "sc_err s \<noteq> None")
      case True
      with "1.prems" split_none show ?thesis by (simp add: Scan.simps[of m f s])
    next
      case noerr: False
      show ?thesis
      proof (cases "m \<le> length (sc_buf s)")
        case True
        with "1.prems" split_none noerr show ?thesis by (simp add: Scan.simps[of m f s])
      next
        case room: False
        show ?thesis
        proof (cases "file_Read f (m - length (sc_buf s))")
          case (Inl e)
          with "1.prems" split_none noerr room
          have "Scan m f (s\<lparr>sc_err := Some (ReadError e)\<rparr>) = (Some t, f', s')"
            by (simp add: Scan.simps[of m f s])
          from "1.IH"(1)[OF split_none noerr room Inl this] show ?thesis by simp
        next
          case (Inr cf)
          obtain chunk f1 where cf: "cf = (chunk, f1)" by (cases cf)
          from Inr cf have rd: "file_Read f (m - length (sc_buf s)) = Inr (chunk, f1)" by simp
          note rem = file_Read_remaining[OF rd]
          show ?thesis
          proof (cases "chunk = []")
            case True
            with "1.prems" split_none noerr room rd
            have "Scan m f1 (s\<lparr>sc_err := Some EOF\<rparr>) = (Some t, f', s')"
              by (simp add: Scan.simps[of m f s])
            from "1.IH"(2)[OF split_none noerr room Inr cf[symmetric] True this] rem True
            show ?thesis by simp
          next
            case False
            with "1.prems" split_none noerr room rd
            have "Scan m f1 (s\<lparr>sc_buf := sc_buf s @ chunk\<rparr>) = (Some t, f', s')"
              by (simp add: Scan.simps[of m f s])
            from "1.IH"(3)[OF split_none noerr room Inr cf[symmetric] False this] rem
            show ?thesis by simp
          qed
        qed
      qed
    qed
  qed
qed

subsection \<open>Harvest\<close>

text \<open>The body of the loop \<open>for scanner.Scan()\<close>: every \<open>continue\<close> leaves \<open>messages\<close> as it is.\<close>

definition harvest_line ::
    "stdlib \<Rightarrow> string \<Rightarrow> instant \<Rightarrow> string \<Rightarrow> Message list \<Rightarrow> Message list" where
  "harvest_line lib sessionID now line messages =
     (if length line = 0 then messages
      else case json_line lib line of
             None \<Rightarrow> messages
           | Some tline \<Rightarrow>
               (case tl_Message tline of
                  None \<Rightarrow> messages
                | Some msg \<Rightarrow>
                    if mp_Role msg \<noteq> ''user'' \<and> mp_Role msg \<noteq> ''assistant'' then messages
                    else messages @
                      [\<lparr> SessionID = sessionID,
                         UUID = tl_UUID tline,
                         ParentUUID = tl_Parent tline,
                         Role = mp_Role msg,
                         Content = extractText lib (mp_Content msg),
                         RawContent = mp_Content msg,
                         Model = mp_Model msg,
                         Timestamp = parseTimestamp lib (tl_Timestamp tline) now \<rparr>]))"

function scan_loop ::
    "stdlib \<Rightarrow> string \<Rightarrow> instant \<Rightarrow> nat \<Rightarrow> os_File \<Rightarrow> Scanner \<Rightarrow> Message list
       \<Rightarrow> Message list \<times> os_File \<times> Scanner" where
  "scan_loop lib sessionID now maxTokenSize f s messages =
     (case Scan maxTokenSize f s of
        (None, f', s') \<Rightarrow> (messages, f', s')
      | (Some line, f', s') \<Rightarrow>
          scan_loop lib sessionID now maxTokenSize f' s' (harvest_line lib sessionID now line messages))"
  by pat_completeness auto
termination
  apply (relation "measure (\<lambda>(lib, sid, now, m, f, s, msgs). length (sc_buf s) + remaining f)")
   apply simp
  subgoal for lib sid now m f s msgs x1 x2 line y1 y2
    using Scan_token_progress[of m f s line y1 y2] by simp
  done

declare scan_loop.simps [simp del]

text \<open>
  The wall clock is state: the \<open>n\<close>-th call of \<open>time.Now\<close> returns \<open>now_at n\<close>, and \<open>calls\<close>
  counts the calls made so far.
\<close>

record clock =
  now_at :: "nat \<Rightarrow> instant"
  calls :: nat

definition time_Now :: "clock \<Rightarrow> instant \<times> clock" where
  "time_Now clk = (now_at clk (calls clk), clk\<lparr>calls := Suc (calls clk)\<rparr>)"

definition maxLine :: nat where
  "maxLine = 10 * 1024 * 1024"

datatype harvest_error = ErrOpen io_error | ErrSeekTo int io_error | ErrScanTranscript scan_error

text \<open>\<open>scanner.Err()\<close> hides \<open>io.EOF\<close>.\<close>

definition scanner_Err :: "Scanner \<Rightarrow> scan_error option" where
  "scanner_Err s = (if sc_err s = Some EOF then None else sc_err s)"

text \<open>
  \<open>Harvest\<close> returns the error or the result, and the clock after the call. The offsets are
  \<open>int64\<close> in the source; no arithmetic is done on them, so they are integers here. The
  error of the final \<open>f.Seek(0, io.SeekCurrent)\<close> is discarded, as in the source.
\<close>

definition Harvest ::
    "stdlib \<Rightarrow> filesystem \<Rightarrow> clock \<Rightarrow> string \<Rightarrow> string \<Rightarrow> int
       \<Rightarrow> (harvest_error + HarvestResult) \<times> clock" where
  "Harvest lib fs clk sessionID transcriptPath fromOffset =
     (case os_Open fs transcriptPath of
        Inl e \<Rightarrow> (Inl (ErrOpen e), clk)
      | Inr f0 \<Rightarrow>
          (case (if 0 < fromOffset then file_Seek f0 fromOffset SeekStart else Inr (0, f0)) of
             Inl e \<Rightarrow> (Inl (ErrSeekTo fromOffset e), clk)
           | Inr (_, f) \<Rightarrow>
               (case time_Now clk of
                  (now, clk') \<Rightarrow>
                    (case scan_loop lib sessionID now maxLine f NewScanner [] of
                       (messages, f', s') \<Rightarrow>
                         (case scanner_Err s' of
                            Some e \<Rightarrow> (Inl (ErrScanTranscript e), clk')
                          | None \<Rightarrow>
                              (Inr \<lparr> Messages = messages,
                                     NewOffset = (case file_Seek f' 0 SeekCurrent of
                                                    Inl _ \<Rightarrow> 0
                                                  | Inr (newOffset, _) \<Rightarrow> newOffset) \<rparr>,
                               clk'))))))"

section \<open>The store (internal/store)\<close>

text \<open>
  The two tables of \<open>coreSchema\<close> that the harvest path touches. A row of \<open>messages\<close>
  carries the eight columns the INSERT statement supplies; a nullable VARCHAR column is a
  \<open>string option\<close> with \<open>None\<close> for NULL. The surrogate key \<open>id\<close> is drawn by the engine
  from a sequence and is never written by the code; because it keeps rows apart that agree
  on every other column, the table is a list (insertion order, duplicates kept) and not a
  set. \<open>transcript_offsets\<close> has the path as PRIMARY KEY, so it is a map.
\<close>

record message_row =
  session_id :: string
  uuid :: "string option"
  parent_uuid :: "string option"
  role :: string
  content :: "string option"
  raw_content :: "string option"
  model :: "string option"
  timestamp :: instant

record Store =
  messages :: "message_row list"
  transcript_offsets :: "string \<rightharpoonup> int"

text \<open>
  Every call into the database driver can fail for reasons outside the program (I/O, a
  lock, a value the engine rejects). The source checks each of them; the model takes the
  outcome of each call as an input, indexed by the call.
\<close>

datatype db_step = BeginTx | PrepareStmt | ExecInsert nat | ExecUpsert | CommitTx | QueryRow

type_synonym faults = "db_step \<Rightarrow> bool"

datatype db_error =
    ErrBeginTx | ErrPrepare | ErrInsertMessage string | ErrUpdateOffset | ErrCommit | ErrQuery

definition no_faults :: faults where
  "no_faults = (\<lambda>_. False)"

definition nullStr :: "string \<Rightarrow> string option" where
  "nullStr s = (if s = [] then None else Some s)"

text \<open>The argument list of \<open>stmt.Exec\<close> in \<open>SaveHarvestedMessages\<close>.\<close>

definition exec_args :: "Message \<Rightarrow> message_row" where
  "exec_args m =
     \<lparr> session_id = SessionID m,
       uuid = nullStr (UUID m),
       parent_uuid = nullStr (ParentUUID m),
       role = Role m,
       content = nullStr (Content m),
       raw_content = nullStr (RawContent m),
       model = nullStr (Model m),
       timestamp = Timestamp m \<rparr>"

text \<open>
  \<open>INSERT INTO messages (...) VALUES (...) ON CONFLICT (uuid) DO NOTHING\<close> against
  \<open>uuid VARCHAR UNIQUE\<close>: a row whose uuid equals that of a stored row is dropped; NULL
  equals nothing, so a row with a NULL uuid never conflicts.
\<close>

definition insert_message :: "message_row \<Rightarrow> message_row list \<Rightarrow> message_row list" where
  "insert_message r tbl =
     (case uuid r of
        None \<Rightarrow> tbl @ [r]
      | Some u \<Rightarrow> if Some u \<in> set (map uuid tbl) then tbl else tbl @ [r])"

text \<open>
  \<open>INSERT INTO transcript_offsets ... ON CONFLICT (transcript_path) DO UPDATE SET
  last_offset = excluded.last_offset\<close>.
\<close>

definition upsert_offset :: "string \<Rightarrow> int \<Rightarrow> Store \<Rightarrow> Store" where
  "upsert_offset path off tx = tx\<lparr>transcript_offsets := (transcript_offsets tx)(path \<mapsto> off)\<rparr>"

text \<open>
  A transaction works on its own copy of the store: \<open>tx_Commit\<close> installs the copy,
  \<open>tx_Rollback\<close> (the deferred call, which runs on every return and does nothing after a
  commit) keeps the committed state.
\<close>

definition tx_Commit :: "Store \<Rightarrow> Store \<Rightarrow> Store" where
  "tx_Commit committed working = working"

definition tx_Rollback :: "Store \<Rightarrow> Store \<Rightarrow> Store" where
  "tx_Rollback committed working = committed"

text \<open>The loop \<open>for _, m := range messages\<close>; the counter numbers the driver calls.\<close>

fun insert_loop :: "faults \<Rightarrow> nat \<Rightarrow> Message list \<Rightarrow> Store \<Rightarrow> db_error + Store" where
  "insert_loop fl i [] tx = Inr tx"
| "insert_loop fl i (m # ms) tx =
     (if fl (ExecInsert i) then Inl (ErrInsertMessage (UUID m))
      else insert_loop fl (Suc i) ms (tx\<lparr>messages := insert_message (exec_args m) (messages tx)\<rparr>))"

text \<open>The result is Go's \<open>error\<close> (\<open>None\<close> is \<open>nil\<close>) and the store after the call.\<close>

definition SaveHarvestedMessages ::
    "faults \<Rightarrow> Store \<Rightarrow> Message list \<Rightarrow> string \<Rightarrow> int \<Rightarrow> db_error option \<times> Store" where
  "SaveHarvestedMessages fl s msgs transcriptPath newOffset =
     (if fl BeginTx then (Some ErrBeginTx, s)
      else if fl PrepareStmt then (Some ErrPrepare, tx_Rollback s s)
      else case insert_loop fl 0 msgs s of
             Inl e \<Rightarrow> (Some e, tx_Rollback s s)
           | Inr tx \<Rightarrow>
               if fl ExecUpsert then (Some ErrUpdateOffset, tx_Rollback s tx)
               else if fl CommitTx
                 then (Some ErrCommit, tx_Rollback s (upsert_offset transcriptPath newOffset tx))
                 else (None, tx_Commit s (upsert_offset transcriptPath newOffset tx)))"

text \<open>
  \<open>GetOffset\<close> returns Go's pair \<open>(offset, err)\<close>: no row is \<open>(0, nil)\<close>; a failed query
  leaves the zero value in \<open>offset\<close> and passes the error on.
\<close>

definition GetOffset :: "faults \<Rightarrow> Store \<Rightarrow> string \<Rightarrow> int \<times> db_error option" where
  "GetOffset fl s path =
     (if fl QueryRow then (0, Some ErrQuery)
      else case transcript_offsets s path of
             None \<Rightarrow> (0, None)
           | Some off \<Rightarrow> (off, None))"

text \<open>
  A sequence of commits for one path, each with its own driver outcomes, batch and offset;
  the result is \<open>None\<close> as soon as one of them returns an error.
\<close>

fun commit_all :: "string \<Rightarrow> (faults \<times> Message list \<times> int) list \<Rightarrow> Store \<Rightarrow> Store option" where
  "commit_all path [] s = Some s"
| "commit_all path ((fl, msgs, off) # cs) s =
     (case SaveHarvestedMessages fl s msgs path off of
        (None, s') \<Rightarrow> commit_all path cs s'
      | (Some e, s') \<Rightarrow> None)"

text \<open>The stored rows that carry a given identifier.\<close>

definition rows_with_uuid :: "string \<Rightarrow> Store \<Rightarrow> message_row list" where
  "rows_with_uuid u s = filter (\<lambda>r. uuid r = Some u) (messages s)"

text \<open>All driver calls of one \<open>SaveHarvestedMessages\<close> on a batch of \<open>n\<close> turns succeed.\<close>

definition all_steps_ok :: "faults \<Rightarrow> nat \<Rightarrow> bool" where
  "all_steps_ok fl n \<longleftrightarrow>
     \<not> fl BeginTx \<and> \<not> fl PrepareStmt \<and> (\<forall>i<n. \<not> fl (ExecInsert i)) \<and>
     \<not> fl ExecUpsert \<and> \<not> fl CommitTx"

section \<open>The hook's harvest step (main.go)\<close>

text \<open>
  \<open>harvestMessages\<close> reads the stored offset, harvests from it, and commits turns and offset
  unless the harvest returned no turn. The store handle is passed and returned; the clock
  is threaded through \<open>Harvest\<close>.
\<close>

datatype app_error = StoreError db_error | HarvestError harvest_error

definition harvestMessages ::
    "stdlib \<Rightarrow> filesystem \<Rightarrow> clock \<Rightarrow> faults \<Rightarrow> Store \<Rightarrow> string \<Rightarrow> string
       \<Rightarrow> app_error option \<times> Store \<times> clock" where
  "harvestMessages lib fs clk fl st sessionID transcriptPath =
     (case GetOffset fl st transcriptPath of
        (offset, Some e) \<Rightarrow> (Some (StoreError e), st, clk)
      | (offset, None) \<Rightarrow>
          (case Harvest lib fs clk sessionID transcriptPath offset of
             (Inl e, clk') \<Rightarrow> (Some (HarvestError e), st, clk')
           | (Inr result, clk') \<Rightarrow>
               if length (Messages result) = 0 then (None, st, clk')
               else (case SaveHarvestedMessages fl st (Messages result) transcriptPath
                            (NewOffset result) of
                       (err, st') \<Rightarrow> (map_option StoreError err, st', clk'))))"

section \<open>Notions used to state the properties\<close>

text \<open>
  The lines of a byte sequence as \<open>ScanLines\<close> cuts them: the bytes up to each newline,
  and a last unterminated line if it is not empty. \<open>transcript_lines\<close> are these lines with
  a trailing carriage return dropped, and \<open>too_long\<close> says that one of them reaches the
  scanner's maximum. \<open>scan_inv\<close>, \<open>pending\<close>, \<open>next_token\<close> and \<open>scan_post\<close> describe one
  call of \<open>Scan\<close> on a regular file: the invariant of the scanner's state, the bytes still
  to be delivered, the token the call returns, and the state it leaves.
\<close>

definition first_line :: "string \<Rightarrow> string" where
  "first_line data = takeWhile (\<lambda>c. c \<noteq> newline) data"

function raw_lines :: "string \<Rightarrow> string list" where
  "raw_lines data =
     (if data = [] then []
      else first_line data # raw_lines (drop (Suc (length (first_line data))) data))"
  by pat_completeness auto
termination
  by (relation "measure length") auto

declare raw_lines.simps [simp del]

definition too_long :: "nat \<Rightarrow> string \<Rightarrow> bool" where
  "too_long m data \<longleftrightarrow> (\<exists>l \<in> set (raw_lines data). m \<le> length l)"

definition scan_inv :: "nat \<Rightarrow> string \<Rightarrow> os_File \<Rightarrow> Scanner \<Rightarrow> bool" where
  "scan_inv m c f s \<longleftrightarrow>
     f_node f = Regular c \<and> length (sc_buf s) \<le> m \<and>
     (sc_err s = None \<or>
      (sc_err s = Some EOF \<and> length c \<le> f_pos f \<and>
       (length (sc_buf s) < m \<or> newline \<in> set (sc_buf s))))"

definition pending :: "string \<Rightarrow> os_File \<Rightarrow> Scanner \<Rightarrow> string" where
  "pending c f s = sc_buf s @ drop (f_pos f) c"

definition next_token :: "nat \<Rightarrow> string \<Rightarrow> string option" where
  "next_token m data =
     (if data = [] \<or> m \<le> length (first_line data) then None
      else Some (dropCR (first_line data)))"

definition scan_post ::
    "nat \<Rightarrow> string \<Rightarrow> os_File \<Rightarrow> Scanner \<Rightarrow> os_File \<Rightarrow> Scanner \<Rightarrow> bool" where
  "scan_post m c f s f' s' \<longleftrightarrow>
     f_node f' = Regular c \<and> f_limit f' = f_limit f \<and> f_pos f \<le> f_pos f' \<and>
     f_pos f' \<le> max (f_pos f) (length c) \<and>
     (if pending c f s = [] then sc_err s' = Some EOF \<and> length c \<le> f_pos f'
      else if m \<le> length (first_line (pending c f s)) then sc_err s' = Some ErrTooLong
      else scan_inv m c f' s' \<and>
           pending c f' s' = drop (Suc (length (first_line (pending c f s)))) (pending c f s))"

definition transcript_lines :: "string \<Rightarrow> string list" where
  "transcript_lines data = map dropCR (raw_lines data)"

text \<open>
  What \<open>newOffset, _ := f.Seek(0, io.SeekCurrent)\<close> leaves in \<open>newOffset\<close> at position \<open>p\<close>:
  the position, or 0 when the seek is refused.
\<close>

definition new_offset :: "filesystem \<Rightarrow> nat \<Rightarrow> int" where
  "new_offset fs p = (if int p \<le> s_maxbytes fs then int p else 0)"

text \<open>
  The turn that one scanned line contributes, if any: the line is not empty, it decodes, the
  record carries a payload, and the payload's role is user or assistant. The record's
  \<open>type\<close> field does not occur.
\<close>

definition retained_turn :: "stdlib \<Rightarrow> string \<Rightarrow> instant \<Rightarrow> string \<Rightarrow> Message option" where
  "retained_turn lib sessionID now line =
     (if line = [] then None
      else case json_line lib line of
             None \<Rightarrow> None
           | Some tline \<Rightarrow>
               (case tl_Message tline of
                  None \<Rightarrow> None
                | Some msg \<Rightarrow>
                    if mp_Role msg = ''user'' \<or> mp_Role msg = ''assistant''
                    then Some \<lparr> SessionID = sessionID,
                                UUID = tl_UUID tline,
                                ParentUUID = tl_Parent tline,
                                Role = mp_Role msg,
                                Content = extractText lib (mp_Content msg),
                                RawContent = mp_Content msg,
                                Model = mp_Model msg,
                                Timestamp = parseTimestamp lib (tl_Timestamp tline) now \<rparr>
                    else None))"

text \<open>
  The texts of the blocks that decode with type \<open>text\<close> and a non-empty text, in order.
\<close>

definition text_blocks :: "stdlib \<Rightarrow> string list \<Rightarrow> string list" where
  "text_blocks lib blocks =
     map snd (filter (\<lambda>(ty, text). ty = ''text'' \<and> text \<noteq> [])
                (List.map_filter (json_block lib) blocks))"

text \<open>
  A regular file is no longer than the largest offset its file system supports.
\<close>

definition within_limit :: "filesystem \<Rightarrow> string \<Rightarrow> bool" where
  "within_limit fs path =
     (case nodes fs path of
        Some (Regular c) \<Rightarrow> int (length c) \<le> s_maxbytes fs
      | _ \<Rightarrow> True)"

section \<open>Sample inputs\<close>

definition msg1 :: Message where
  "msg1 = \<lparr> SessionID = ''sess-1'', UUID = ''m1'', ParentUUID = [], Role = ''user'',
            Content = ''a'', RawContent = [], Model = [], Timestamp = 1000 \<rparr>"

definition msg2 :: Message where
  "msg2 = \<lparr> SessionID = ''sess-1'', UUID = ''m2'', ParentUUID = [], Role = ''user'',
            Content = ''b'', RawContent = [], Model = [], Timestamp = 2000 \<rparr>"

definition msg_no_uuid :: Message where
  "msg_no_uuid = \<lparr> SessionID = ''sess-1'', UUID = [], ParentUUID = [], Role = ''user'',
                   Content = ''c'', RawContent = [], Model = [], Timestamp = 3000 \<rparr>"

definition empty_store :: Store where
  "empty_store = \<lparr> messages = [], transcript_offsets = Map.empty \<rparr>"

text \<open>
  Transcript lines as the repository's tests write them, a record whose \<open>type\<close> is
  \<open>user\<close>, and the values \<open>encoding/json\<close> and \<open>time.Parse\<close> return on them. The sample
  library is defined on these inputs only.
\<close>

definition line_user :: string where
  \<open>line_user = ''{"type":"message","uuid":"u1","message":{"role":"user","content":"hi"}}''\<close>

definition line_system :: string where
  \<open>line_system = ''{"type":"message","uuid":"s1","message":{"role":"system","content":"you are helpful"}}''\<close>

definition line_stamped :: string where
  \<open>line_stamped = ''{"type":"message","uuid":"u3","timestamp":"2024-06-15T14:30:00Z","message":{"role":"user","content":"hi"}}''\<close>

definition line_typed_user :: string where
  \<open>line_typed_user = ''{"type":"user","uuid":"u2","message":{"role":"user","content":"hi"}}''\<close>

definition line_garbage :: string where
  "line_garbage = ''not json at all''"

definition payload_hi :: messagePayload where
  \<open>payload_hi = \<lparr> mp_Role = ''user'', mp_Content = ''"hi"'', mp_Model = [] \<rparr>\<close>

definition blocks_raw :: string where
  \<open>blocks_raw = ''[{"type":"text","text":"a"},{"type":"tool_use","id":"x"},{"type":"text","text":"b"}]''\<close>

definition sample_lib :: stdlib where
  \<open>sample_lib =
     \<lparr> json_line = (\<lambda>l.
         if l = line_user then
           Some \<lparr> tl_Type = ''message'', tl_UUID = ''u1'', tl_Parent = [],
                  tl_Message = Some payload_hi, tl_Timestamp = [] \<rparr>
         else if l = line_system then
           Some \<lparr> tl_Type = ''message'', tl_UUID = ''s1'', tl_Parent = [],
                  tl_Message = Some \<lparr> mp_Role = ''system'', mp_Content = ''"you are helpful"'',
                                       mp_Model = [] \<rparr>,
                  tl_Timestamp = [] \<rparr>
         else if l = line_stamped then
           Some \<lparr> tl_Type = ''message'', tl_UUID = ''u3'', tl_Parent = [],
                  tl_Message = Some payload_hi, tl_Timestamp = ''2024-06-15T14:30:00Z'' \<rparr>
         else if l = line_typed_user then
           Some \<lparr> tl_Type = ''user'', tl_UUID = ''u2'', tl_Parent = [],
                  tl_Message = Some payload_hi, tl_Timestamp = [] \<rparr>
         else None),
       json_string = (\<lambda>r.
         if r = ''"hi"'' then Some ''hi''
         else if r = ''"you are helpful"'' then Some ''you are helpful''
         else None),
       json_blocks = (\<lambda>r.
         if r = blocks_raw
         then Some [''{"type":"text","text":"a"}'', ''{"type":"tool_use","id":"x"}'',
                    ''{"type":"text","text":"b"}'']
         else None),
       json_block = (\<lambda>r.
         if r = ''{"type":"text","text":"a"}'' then Some (''text'', ''a'')
         else if r = ''{"type":"tool_use","id":"x"}'' then Some (''tool_use'', [])
         else if r = ''{"type":"text","text":"b"}'' then Some (''text'', ''b'')
         else None),
       time_Parse = (\<lambda>r.
         if r = ''2024-06-15T14:30:00Z'' then Some 1718461800000000000 else None) \<rparr>\<close>

definition sample_fs :: filesystem where
  "sample_fs =
     \<lparr> nodes = [''/t/blank.jsonl'' \<mapsto> Regular [newline],
                ''/tmp'' \<mapsto> Directory,
                ''/t/typed.jsonl'' \<mapsto> Regular (line_typed_user @ [newline]),
                ''/t/mixed.jsonl'' \<mapsto>
                  Regular (line_garbage @ [newline] @ line_system @ [newline] @
                           line_stamped @ [newline] @ line_user @ [newline])],
       s_maxbytes = 9223372036854775807 \<rparr>"

definition sample_clock :: clock where
  "sample_clock = \<lparr> now_at = (\<lambda>n. 1700000000000000000 + int n), calls = 0 \<rparr>"

definition turn_hi :: "string \<Rightarrow> instant \<Rightarrow> Message" where
  \<open>turn_hi u t = \<lparr> SessionID = ''sess-1'', UUID = u, ParentUUID = [], Role = ''user'',
                  Content = ''hi'', RawContent = ''"hi"'', Model = [], Timestamp = t \<rparr>\<close>

section \<open>Properties of the store\<close>

lemma insert_loop_offsets:
  "insert_loop fl i msgs tx = Inr tx' \<Longrightarrow> transcript_offsets tx' = transcript_offsets tx"
  by (induction msgs arbitrary: i tx) (auto split: if_splits)

lemma SaveHarvestedMessages_offset:
  assumes "SaveHarvestedMessages fl s msgs path off = (None, s')"
  shows "transcript_offsets s' = (transcript_offsets s)(path \<mapsto> off)"
  using assms
  by (auto simp: SaveHarvestedMessages_def tx_Commit_def tx_Rollback_def upsert_offset_def
      split: if_splits sum.splits dest: insert_loop_offsets)

lemma commit_all_last:
  "commit_all path cs s = Some s' \<Longrightarrow> cs \<noteq> [] \<Longrightarrow>
     transcript_offsets s' path = Some (snd (snd (last cs)))"
proof (induction cs arbitrary: s)
  case Nil
  then show ?case by simp
next
  case (Cons c cs)
  obtain fl msgs off where c: "c = (fl, msgs, off)" by (cases c)
  from Cons.prems(1) c obtain s1 where
    s1: "SaveHarvestedMessages fl s msgs path off = (None, s1)" and
    rest: "commit_all path cs s1 = Some s'"
    by (auto split: prod.splits option.splits)
  show ?case
  proof (cases "cs = []")
    case True
    with rest s1 c show ?thesis
      by (simp add: SaveHarvestedMessages_offset)
  next
    case False
    with Cons.IH[OF rest] show ?thesis by simp
  qed
qed

text \<open>
  C8. The offset store: \<open>GetOffset\<close> answers \<open>(0, nil)\<close> for a path with no row, and after
  any non-empty sequence of successful commits for a path it answers the offset of the
  last commit, whatever was stored before (no maximum is taken). Both hold whenever the
  query itself runs.
\<close>

theorem GetOffset_contract:
  "\<not> fl QueryRow \<Longrightarrow>
     (transcript_offsets s path = None \<longrightarrow> GetOffset fl s path = (0, None)) \<and>
     (cs \<noteq> [] \<and> commit_all path cs s = Some s' \<longrightarrow>
        GetOffset fl s' path = (snd (snd (last cs)), None))"
  by (auto simp: GetOffset_def dest: commit_all_last)

theorem GetOffset_contract_witness:
  "\<not> no_faults QueryRow \<and>
   transcript_offsets empty_store ''/path.jsonl'' = None \<and>
   GetOffset no_faults empty_store ''/path.jsonl'' = (0, None) \<and>
   [(no_faults, [msg1], 200), (no_faults, [msg2], 100)] \<noteq> [] \<and>
   commit_all ''/path.jsonl'' [(no_faults, [msg1], 200), (no_faults, [msg2], 100)] empty_store
     = Some \<lparr> messages = [exec_args msg1, exec_args msg2],
              transcript_offsets = [''/path.jsonl'' \<mapsto> 100] \<rparr> \<and>
   GetOffset no_faults
     \<lparr> messages = [exec_args msg1, exec_args msg2],
       transcript_offsets = [''/path.jsonl'' \<mapsto> 100] \<rparr> ''/path.jsonl'' = (100, None)"
proof -
  have q: "\<not> no_faults QueryRow" by (simp add: no_faults_def)
  have e: "transcript_offsets empty_store ''/path.jsonl'' = None"
    by (simp add: empty_store_def)
  have c: "commit_all ''/path.jsonl'' [(no_faults, [msg1], 200), (no_faults, [msg2], 100)]
             empty_store
           = Some \<lparr> messages = [exec_args msg1, exec_args msg2],
                    transcript_offsets = [''/path.jsonl'' \<mapsto> 100] \<rparr>"
    by (simp add: SaveHarvestedMessages_def no_faults_def empty_store_def insert_message_def
        exec_args_def msg1_def msg2_def nullStr_def upsert_offset_def tx_Commit_def)
  from GetOffset_contract[of no_faults empty_store "''/path.jsonl''"
      "[(no_faults, [msg1], 200), (no_faults, [msg2], 100)]"
      "\<lparr> messages = [exec_args msg1, exec_args msg2],
         transcript_offsets = [''/path.jsonl'' \<mapsto> 100] \<rparr>"] q e c
  show ?thesis by simp
qed

subsection \<open>Atomic commit\<close>

lemma insert_loop_ok:
  "\<forall>j<length msgs. \<not> fl (ExecInsert (i + j)) \<Longrightarrow>
     insert_loop fl i msgs tx =
       Inr (tx\<lparr>messages := foldl (\<lambda>tbl m. insert_message (exec_args m) tbl) (messages tx) msgs\<rparr>)"
proof (induction msgs arbitrary: i tx)
  case Nil
  then show ?case by simp
next
  case (Cons m ms)
  from Cons.prems have here: "\<not> fl (ExecInsert i)" by force
  have "\<forall>j<length ms. \<not> fl (ExecInsert (Suc i + j))"
  proof (intro allI impI)
    fix j assume "j < length ms"
    with Cons.prems have "\<not> fl (ExecInsert (i + Suc j))" by (metis Suc_less_eq length_Cons)
    then show "\<not> fl (ExecInsert (Suc i + j))" by simp
  qed
  from Cons.IH[OF this] here show ?case by simp
qed

lemma insert_loop_fault:
  "\<exists>j<length msgs. fl (ExecInsert (i + j)) \<Longrightarrow> \<exists>e. insert_loop fl i msgs tx = Inl e"
proof (induction msgs arbitrary: i tx)
  case Nil
  then show ?case by simp
next
  case (Cons m ms)
  show ?case
  proof (cases "fl (ExecInsert i)")
    case True
    then show ?thesis by simp
  next
    case False
    from Cons.prems obtain j where j: "j < Suc (length ms)" "fl (ExecInsert (i + j))" by auto
    with False obtain k where "j = Suc k" by (cases j) auto
    with j have "\<exists>k<length ms. fl (ExecInsert (Suc i + k))" by auto
    from Cons.IH[OF this] False show ?thesis by simp
  qed
qed

text \<open>
  C1. \<open>SaveHarvestedMessages\<close> is atomic. If every driver call of the transaction
  succeeds, the call returns nil and the store holds every insertion of the batch together
  with the new offset; if any call fails (begin, prepare, the insertion of any turn, the
  offset upsert, or the commit), it returns an error and the store is exactly the store
  before the call.
\<close>

theorem SaveHarvestedMessages_atomic:
  "(all_steps_ok fl (length msgs) \<longrightarrow>
      SaveHarvestedMessages fl s msgs path off =
        (None, s\<lparr>messages := foldl (\<lambda>tbl m. insert_message (exec_args m) tbl) (messages s) msgs,
                  transcript_offsets := (transcript_offsets s)(path \<mapsto> off)\<rparr>)) \<and>
   (\<not> all_steps_ok fl (length msgs) \<longrightarrow>
      (\<exists>e. SaveHarvestedMessages fl s msgs path off = (Some e, s)))"
proof (intro conjI impI)
  assume ok: "all_steps_ok fl (length msgs)"
  then have "\<forall>j<length msgs. \<not> fl (ExecInsert (0 + j))" by (simp add: all_steps_ok_def)
  from insert_loop_ok[OF this] ok
  show "SaveHarvestedMessages fl s msgs path off =
        (None, s\<lparr>messages := foldl (\<lambda>tbl m. insert_message (exec_args m) tbl) (messages s) msgs,
                  transcript_offsets := (transcript_offsets s)(path \<mapsto> off)\<rparr>)"
    by (simp add: SaveHarvestedMessages_def all_steps_ok_def upsert_offset_def tx_Commit_def)
next
  assume bad: "\<not> all_steps_ok fl (length msgs)"
  show "\<exists>e. SaveHarvestedMessages fl s msgs path off = (Some e, s)"
  proof (cases "\<exists>j<length msgs. fl (ExecInsert (0 + j))")
    case True
    from insert_loop_fault[OF this] obtain e where "insert_loop fl 0 msgs s = Inl e" by blast
    then show ?thesis
      by (simp add: SaveHarvestedMessages_def tx_Rollback_def)
  next
    case False
    then have "\<forall>j<length msgs. \<not> fl (ExecInsert (0 + j))" by blast
    from insert_loop_ok[OF this] bad False show ?thesis
      by (auto simp: SaveHarvestedMessages_def all_steps_ok_def tx_Rollback_def)
  qed
qed

theorem SaveHarvestedMessages_atomic_witness:
  "all_steps_ok no_faults (length [msg1, msg2]) \<and>
   SaveHarvestedMessages no_faults empty_store [msg1, msg2] ''/path.jsonl'' 100 =
     (None, \<lparr> messages = [exec_args msg1, exec_args msg2],
              transcript_offsets = [''/path.jsonl'' \<mapsto> 100] \<rparr>) \<and>
   \<not> all_steps_ok (\<lambda>st. st = ExecInsert 1) (length [msg1, msg2]) \<and>
   (\<exists>e. SaveHarvestedMessages (\<lambda>st. st = ExecInsert 1) empty_store [msg1, msg2]
          ''/path.jsonl'' 100 = (Some e, empty_store))"
proof -
  have ok: "all_steps_ok no_faults (length [msg1, msg2])"
    by (simp add: all_steps_ok_def no_faults_def)
  have bad: "\<not> all_steps_ok (\<lambda>st. st = ExecInsert 1) (length [msg1, msg2])"
    by (auto simp: all_steps_ok_def)
  have val: "empty_store\<lparr>messages :=
               foldl (\<lambda>tbl m. insert_message (exec_args m) tbl) (messages empty_store) [msg1, msg2],
               transcript_offsets := (transcript_offsets empty_store)(''/path.jsonl'' \<mapsto> 100)\<rparr>
             = \<lparr> messages = [exec_args msg1, exec_args msg2],
                 transcript_offsets = [''/path.jsonl'' \<mapsto> 100] \<rparr>"
    by (simp add: empty_store_def insert_message_def exec_args_def msg1_def msg2_def nullStr_def)
  from SaveHarvestedMessages_atomic[of no_faults "[msg1, msg2]" empty_store "''/path.jsonl''" 100]
    SaveHarvestedMessages_atomic[of "\<lambda>st. st = ExecInsert 1" "[msg1, msg2]" empty_store
      "''/path.jsonl''" 100]
    ok bad val
  show ?thesis by simp
qed

subsection \<open>Identifier conflicts\<close>

lemma insert_message_conflict:
  "uuid r = Some u \<Longrightarrow> Some u \<in> set (map uuid tbl) \<Longrightarrow> insert_message r tbl = tbl"
  by (simp add: insert_message_def)

lemma rows_with_uuid_present:
  "rows_with_uuid u s = [r] \<Longrightarrow> Some u \<in> set (map uuid (messages s))"
proof -
  assume "rows_with_uuid u s = [r]"
  then have "r \<in> set (filter (\<lambda>r. uuid r = Some u) (messages s))"
    by (simp add: rows_with_uuid_def)
  then have "r \<in> set (messages s)" "uuid r = Some u" by auto
  then show ?thesis by force
qed

lemma recommit_once:
  assumes "UUID m \<noteq> []" and "Some (UUID m) \<in> set (map uuid (messages s))"
  shows "SaveHarvestedMessages no_faults s [m] path off =
           (None, s\<lparr>transcript_offsets := (transcript_offsets s)(path \<mapsto> off)\<rparr>)"
proof -
  from assms(1) have "uuid (exec_args m) = Some (UUID m)"
    by (simp add: exec_args_def nullStr_def)
  from insert_message_conflict[OF this assms(2)] show ?thesis
    by (simp add: SaveHarvestedMessages_def no_faults_def upsert_offset_def tx_Commit_def)
qed

text \<open>
  C3. Committing a turn whose non-empty identifier is already stored is a no-op on the
  messages table, however often it is repeated: with a working database every commit
  returns nil, the table is what it was, and the one row stored for the identifier is
  still that row, with its original field values.
\<close>

theorem conflict_is_noop:
  assumes "UUID m \<noteq> []" and "rows_with_uuid (UUID m) s = [r]"
  shows "\<exists>s'. commit_all path (replicate n (no_faults, [m], off)) s = Some s' \<and>
              messages s' = messages s \<and> rows_with_uuid (UUID m) s' = [r]"
  using assms(2)
proof (induction n arbitrary: s)
  case 0
  then show ?case by simp
next
  case (Suc n)
  let ?s1 = "s\<lparr>transcript_offsets := (transcript_offsets s)(path \<mapsto> off)\<rparr>"
  from recommit_once[OF assms(1) rows_with_uuid_present[OF Suc.prems]]
  have step: "SaveHarvestedMessages no_faults s [m] path off = (None, ?s1)" .
  have "rows_with_uuid (UUID m) ?s1 = [r]"
    using Suc.prems by (simp add: rows_with_uuid_def)
  from Suc.IH[OF this] step show ?case by simp
qed

theorem conflict_is_noop_witness:
  "UUID msg1 \<noteq> [] \<and>
   rows_with_uuid (UUID msg1)
     \<lparr> messages = [exec_args msg1], transcript_offsets = [''/path.jsonl'' \<mapsto> 50] \<rparr>
     = [exec_args msg1] \<and>
   (\<exists>s'. commit_all ''/path.jsonl''
           (replicate 3 (no_faults, [msg1\<lparr>Content := ''changed''\<rparr>], 100))
           \<lparr> messages = [exec_args msg1], transcript_offsets = [''/path.jsonl'' \<mapsto> 50] \<rparr>
         = Some s' \<and>
         messages s' = [exec_args msg1] \<and>
         rows_with_uuid (UUID msg1) s' = [exec_args msg1])"
proof -
  have u: "UUID (msg1\<lparr>Content := ''changed''\<rparr>) \<noteq> []" by (simp add: msg1_def)
  have r: "rows_with_uuid (UUID (msg1\<lparr>Content := ''changed''\<rparr>))
             \<lparr> messages = [exec_args msg1], transcript_offsets = [''/path.jsonl'' \<mapsto> 50] \<rparr>
           = [exec_args msg1]"
    by (simp add: rows_with_uuid_def exec_args_def msg1_def nullStr_def)
  from conflict_is_noop[OF u r, of "''/path.jsonl''" 3 100] u r
  show ?thesis by simp
qed

text \<open>
  C10. A turn with an empty identifier is stored with a NULL uuid, which conflicts with
  nothing: committing it twice appends two rows.
\<close>

theorem empty_uuid_duplicates:
  "UUID m = [] \<Longrightarrow>
     uuid (exec_args m) = None \<and>
     (\<exists>s'. commit_all path [(no_faults, [m], off1), (no_faults, [m], off2)] s = Some s' \<and>
           messages s' = messages s @ [exec_args m, exec_args m])"
  by (simp add: SaveHarvestedMessages_def no_faults_def insert_message_def exec_args_def
      nullStr_def upsert_offset_def tx_Commit_def)

theorem empty_uuid_duplicates_witness:
  "UUID msg_no_uuid = [] \<and>
   uuid (exec_args msg_no_uuid) = None \<and>
   (\<exists>s'. commit_all ''/path.jsonl''
           [(no_faults, [msg_no_uuid], 50), (no_faults, [msg_no_uuid], 100)] empty_store = Some s' \<and>
         messages s' = messages empty_store @ [exec_args msg_no_uuid, exec_args msg_no_uuid])"
proof -
  have u: "UUID msg_no_uuid = []" by (simp add: msg_no_uuid_def)
  from empty_uuid_duplicates[OF u, of "''/path.jsonl''" 50 100 empty_store] u
  show ?thesis by simp
qed

section \<open>Properties of the scanner and of Harvest\<close>

lemma first_line_in_buf:
  "newline \<in> set b \<Longrightarrow> first_line (b @ r) = first_line b"
  by (simp add: first_line_def takeWhile_append1[of newline])

lemma first_line_no_newline:
  "newline \<notin> set b \<Longrightarrow> first_line (b @ r) = b @ first_line r"
  unfolding first_line_def by (induction b) auto

lemma first_line_take:
  "take (length (first_line b)) b = first_line b"
  unfolding first_line_def by (rule takeWhile_eq_take[symmetric])

lemma first_line_less:
  "newline \<in> set b \<Longrightarrow> length (first_line b) < length b"
  unfolding first_line_def by (induction b) auto

lemma first_line_le: "length (first_line b) \<le> length b"
  unfolding first_line_def by (rule length_takeWhile_le)

lemma first_line_all: "newline \<notin> set b \<Longrightarrow> first_line b = b"
  unfolding first_line_def by (induction b) auto

lemma Scan_step_token:
  assumes inv: "scan_inv m c f s"
    and sp: "ScanLines (sc_buf s) (sc_err s \<noteq> None) = Some (advance, token)"
  shows "Scan m f s = (next_token m (pending c f s), f, s\<lparr>sc_buf := drop advance (sc_buf s)\<rparr>) \<and>
         scan_post m c f s f (s\<lparr>sc_buf := drop advance (sc_buf s)\<rparr>)"
proof -
  let ?b = "sc_buf s"
  let ?D = "pending c f s"
  from sp have ne: "?b \<noteq> []" by (auto simp: ScanLines_def split: if_splits)
  have run: "Scan m f s = (Some token, f, s\<lparr>sc_buf := drop advance ?b\<rparr>)"
    using sp ne by (simp add: Scan.simps[of m f s])
  show ?thesis
  proof (cases "newline \<in> set ?b")
    case True
    then have fl: "first_line ?D = first_line ?b"
      by (simp add: pending_def first_line_in_buf)
    from True sp have adv: "advance = Suc (length (first_line ?b))"
      and tok: "token = dropCR (first_line ?b)"
      by (auto simp: ScanLines_def Let_def first_line_def takeWhile_eq_take[symmetric]
          split: if_splits)
    from first_line_less[OF True] inv have lt: "length (first_line ?b) < m"
      by (simp add: scan_inv_def)
    have le: "Suc (length (first_line ?b)) \<le> length ?b"
      using first_line_less[OF True] by simp
    have nt: "next_token m ?D = Some token"
      using ne lt fl tok by (simp add: next_token_def pending_def)
    have pend: "pending c f (s\<lparr>sc_buf := drop advance ?b\<rparr>) = drop (Suc (length (first_line ?D))) ?D"
      unfolding fl adv using le by (simp add: pending_def)
    have inv': "scan_inv m c f (s\<lparr>sc_buf := drop advance ?b\<rparr>)"
      using inv ne adv le by (auto simp: scan_inv_def)
    have "?D \<noteq> []" using ne by (simp add: pending_def)
    moreover have "\<not> m \<le> length (first_line ?D)" using lt fl by simp
    ultimately show ?thesis
      using run nt pend inv' inv
      by (simp add: scan_post_def scan_inv_def)
  next
    case False
    with sp ne have eof: "sc_err s \<noteq> None" and adv: "advance = length ?b"
      and tok: "token = dropCR ?b"
      by (auto simp: ScanLines_def split: if_splits)
    from eof inv have past: "length c \<le> f_pos f" and lt: "length ?b < m"
      using False by (auto simp: scan_inv_def)
    then have D: "?D = ?b" by (simp add: pending_def)
    have fl: "first_line ?D = ?b" using D False by (simp add: first_line_all)
    have nt: "next_token m ?D = Some token"
      using ne lt fl tok D by (simp add: next_token_def)
    have inv': "scan_inv m c f (s\<lparr>sc_buf := drop advance ?b\<rparr>)"
      using inv adv lt False by (auto simp: scan_inv_def)
    have pend: "pending c f (s\<lparr>sc_buf := drop advance ?b\<rparr>) = drop (Suc (length (first_line ?D))) ?D"
      using past False by (simp add: D adv first_line_all pending_def)
    have "?D \<noteq> []" using ne D by simp
    moreover have "\<not> m \<le> length (first_line ?D)" using lt fl by simp
    ultimately show ?thesis
      using run nt pend inv' inv
      by (simp add: scan_post_def scan_inv_def)
  qed
qed

lemma scan_post_shift:
  assumes "scan_post m c f1 s1 f' s'"
    and "pending c f1 s1 = pending c f s"
    and "f_limit f1 = f_limit f"
    and "f_pos f \<le> f_pos f1"
    and "f_pos f1 \<le> max (f_pos f) (length c)"
  shows "scan_post m c f s f' s'"
  using assms by (auto simp: scan_post_def max_def split: if_splits)

lemma take_then_drop: "take n xs @ drop (length (take n xs)) xs = xs"
  by (cases "n \<le> length xs") (simp_all add: min_def)

lemma file_Read_regular:
  "f_node f = Regular c \<Longrightarrow>
     file_Read f n =
       Inr (take n (drop (f_pos f) c), f\<lparr>f_pos := f_pos f + length (take n (drop (f_pos f) c))\<rparr>)"
  by (simp add: file_Read_def Let_def)

lemma Scan_step:
  "0 < m \<Longrightarrow> scan_inv m c f s \<Longrightarrow>
     \<exists>f' s'. Scan m f s = (next_token m (pending c f s), f', s') \<and> scan_post m c f s f' s'"
proof (induction m f s rule: Scan.induct)
  case (1 m f s)
  note pos = "1.prems"(1) and inv = "1.prems"(2)
  let ?b = "sc_buf s"
  let ?D = "pending c f s"
  let ?split = "if ?b \<noteq> [] \<or> sc_err s \<noteq> None
                then ScanLines ?b (sc_err s \<noteq> None) else None"
  from inv have node: "f_node f = Regular c" by (simp add: scan_inv_def)
  show ?case
  proof (cases ?split)
    case (Some at)
    obtain advance token where at: "at = (advance, token)" by (cases at)
    from Some at have "ScanLines ?b (sc_err s \<noteq> None) = Some (advance, token)"
      by (auto split: if_splits)
    from Scan_step_token[OF inv this] show ?thesis by blast
  next
    case None
    note split_none = None
    show ?thesis
    proof (cases "sc_err s \<noteq> None")
      case True
      with inv have eof: "sc_err s = Some EOF" and past: "length c \<le> f_pos f"
        by (auto simp: scan_inv_def)
      from split_none True have "?b = []"
        by (auto simp: ScanLines_def Let_def split: if_splits)
      with past have D: "?D = []" by (simp add: pending_def)
      have run: "Scan m f s = (None, f, s\<lparr>sc_buf := []\<rparr>)"
        using split_none True by (simp add: Scan.simps[of m f s])
      have "scan_post m c f s f (s\<lparr>sc_buf := []\<rparr>)"
        using D node eof past by (simp add: scan_post_def)
      with run D show ?thesis by (simp add: next_token_def)
    next
      case noerr: False
      show ?thesis
      proof (cases "m \<le> length ?b")
        case True
        with pos have ne: "?b \<noteq> []" by auto
        with split_none noerr have nonl: "newline \<notin> set ?b"
          by (auto simp: ScanLines_def Let_def split: if_splits)
        have fl: "m \<le> length (first_line ?D)"
          using True nonl by (simp add: pending_def first_line_no_newline)
        have Dne: "?D \<noteq> []" using ne by (simp add: pending_def)
        have run: "Scan m f s = (None, f, s\<lparr>sc_err := Some ErrTooLong\<rparr>)"
          using split_none noerr True by (simp add: Scan.simps[of m f s])
        have "scan_post m c f s f (s\<lparr>sc_err := Some ErrTooLong\<rparr>)"
          using Dne fl node by (simp add: scan_post_def)
        with run Dne fl show ?thesis by (simp add: next_token_def)
      next
        case room: False
        let ?n = "m - length ?b"
        let ?chunk = "take ?n (drop (f_pos f) c)"
        let ?f1 = "f\<lparr>f_pos := f_pos f + length ?chunk\<rparr>"
        have rd: "file_Read f ?n = Inr (?chunk, ?f1)"
          by (rule file_Read_regular[OF node])
        have lim: "f_limit ?f1 = f_limit f" by simp
        have mono: "f_pos f \<le> f_pos ?f1" by simp
        have bound: "f_pos ?f1 \<le> max (f_pos f) (length c)" by (auto simp: max_def min_def)
        show ?thesis
        proof (cases "?chunk = []")
          case True
          let ?s1 = "s\<lparr>sc_err := Some EOF\<rparr>"
          from True room have past: "length c \<le> f_pos f" by simp
          have run: "Scan m f s = Scan m ?f1 ?s1"
            using split_none noerr room rd True by (simp add: Scan.simps[of m f s])
          have inv1: "scan_inv m c ?f1 ?s1"
            using inv room past by (simp add: scan_inv_def)
          have pend: "pending c ?f1 ?s1 = ?D"
            using past by (simp add: pending_def)
          from "1.IH"(2)[OF split_none noerr room rd refl True pos inv1]
          obtain f' s' where
            r: "Scan m ?f1 ?s1 = (next_token m (pending c ?f1 ?s1), f', s')" and
            p: "scan_post m c ?f1 ?s1 f' s'" by blast
          from scan_post_shift[OF p pend lim mono bound] r run pend
          show ?thesis by auto
        next
          case False
          let ?s1 = "s\<lparr>sc_buf := ?b @ ?chunk\<rparr>"
          have run: "Scan m f s = Scan m ?f1 ?s1"
            using split_none noerr room rd False by (simp add: Scan.simps[of m f s])
          have inv1: "scan_inv m c ?f1 ?s1"
            using inv room noerr by (simp add: scan_inv_def)
          have "?chunk @ drop (f_pos f + length ?chunk) c = drop (f_pos f) c"
            using take_then_drop[of ?n "drop (f_pos f) c"] by (simp add: add.commute)
          then have pend: "pending c ?f1 ?s1 = ?D"
            by (simp add: pending_def)
          from "1.IH"(3)[OF split_none noerr room rd refl False pos inv1]
          obtain f' s' where
            r: "Scan m ?f1 ?s1 = (next_token m (pending c ?f1 ?s1), f', s')" and
            p: "scan_post m c ?f1 ?s1 f' s'" by blast
          from scan_post_shift[OF p pend lim mono bound] r run pend
          show ?thesis by auto
        qed
      qed
    qed
  qed
qed

lemma raw_lines_Nil: "raw_lines [] = []"
  by (simp add: raw_lines.simps)

lemma raw_lines_Cons:
  "data \<noteq> [] \<Longrightarrow>
     raw_lines data = first_line data # raw_lines (drop (Suc (length (first_line data))) data)"
  by (subst raw_lines.simps) simp

lemma scan_loop_regular:
  "0 < m \<Longrightarrow> scan_inv m c f s \<Longrightarrow> scan_loop lib sid now m f s acc = (acc', f', s') \<Longrightarrow>
     f_limit f' = f_limit f \<and> f_node f' = Regular c \<and>
     (if too_long m (pending c f s) then sc_err s' = Some ErrTooLong
      else sc_err s' = Some EOF \<and>
           acc' = foldl (\<lambda>a l. harvest_line lib sid now l a) acc
                    (transcript_lines (pending c f s)) \<and>
           f_pos f' = max (f_pos f) (length c))"
proof (induction lib sid now m f s acc rule: scan_loop.induct)
  case (1 lib sid now m f s acc)
  note pos = "1.prems"(1) and inv = "1.prems"(2) and run = "1.prems"(3)
  let ?D = "pending c f s"
  from Scan_step[OF pos inv] obtain f1 s1 where
    r: "Scan m f s = (next_token m ?D, f1, s1)" and p: "scan_post m c f s f1 s1" by blast
  show ?case
  proof (cases "next_token m ?D")
    case None
    with r run have res: "acc' = acc" "f' = f1" "s' = s1"
      by (simp_all add: scan_loop.simps[of lib sid now m f s acc])
    show ?thesis
    proof (cases "?D = []")
      case True
      with p res show ?thesis
        by (auto simp: scan_post_def too_long_def transcript_lines_def raw_lines_Nil max_def)
    next
      case False
      with None have big: "m \<le> length (first_line ?D)"
        by (simp add: next_token_def split: if_splits)
      with False have "too_long m ?D"
        by (auto simp: too_long_def raw_lines_Cons)
      with p res False big show ?thesis
        by (auto simp: scan_post_def)
    qed
  next
    case (Some line)
    then have Dne: "?D \<noteq> []" and small: "\<not> m \<le> length (first_line ?D)"
      and line: "line = dropCR (first_line ?D)"
      by (auto simp: next_token_def split: if_splits)
    let ?D' = "drop (Suc (length (first_line ?D))) ?D"
    from p Dne small have inv1: "scan_inv m c f1 s1" and pend: "pending c f1 s1 = ?D'"
      and lim: "f_limit f1 = f_limit f" and lo: "f_pos f \<le> f_pos f1"
      and hi: "f_pos f1 \<le> max (f_pos f) (length c)"
      by (simp_all add: scan_post_def)
    from r Some run
    have run1: "scan_loop lib sid now m f1 s1 (harvest_line lib sid now line acc) = (acc', f', s')"
      by (simp add: scan_loop.simps[of lib sid now m f s acc])
    from r Some have r': "(Some line, f1, s1) = Scan m f s" by simp
    note ih = "1.IH"[OF r' refl refl pos inv1 run1]
    have tl: "too_long m ?D = too_long m ?D'"
      using small by (auto simp: too_long_def raw_lines_Cons[OF Dne])
    have lines: "transcript_lines ?D = line # transcript_lines ?D'"
      by (simp add: transcript_lines_def raw_lines_Cons[OF Dne] line)
    have mx: "max (f_pos f1) (length c) = max (f_pos f) (length c)"
      using lo hi by (auto simp: max_def split: if_splits)
    from ih show ?thesis
      unfolding pend tl lines mx lim by simp
  qed
qed

lemma scan_inv_start:
  "f_node f = Regular c \<Longrightarrow> scan_inv m c f NewScanner"
  by (simp add: scan_inv_def NewScanner_def)

lemma Harvest_open_fails:
  "nodes fs path = None \<Longrightarrow> Harvest lib fs clk sid path off = (Inl (ErrOpen ENOENT), clk)"
  by (simp add: Harvest_def os_Open_def)

lemma Harvest_seek_fails:
  "nodes fs path = Some n \<Longrightarrow> 0 < off \<Longrightarrow> s_maxbytes fs < off \<Longrightarrow>
     Harvest lib fs clk sid path off = (Inl (ErrSeekTo off EINVAL), clk)"
  by (simp add: Harvest_def os_Open_def file_Seek_def)

lemma seek_or_stay:
  "\<not> (0 < off \<and> lim < off) \<Longrightarrow>
     (if 0 < off then file_Seek \<lparr> f_node = n, f_limit = lim, f_pos = 0 \<rparr> off SeekStart
      else Inr (0, \<lparr> f_node = n, f_limit = lim, f_pos = 0 \<rparr>))
     = Inr (if 0 < off then off else 0, \<lparr> f_node = n, f_limit = lim, f_pos = nat off \<rparr>)"
  by (auto simp: file_Seek_def)

lemma scan_loop_directory:
  "f_node f = Directory \<Longrightarrow> 0 < m \<Longrightarrow>
     scan_loop lib sid now m f NewScanner acc =
       (acc, f, \<lparr> sc_buf = [], sc_err = Some (ReadError EISDIR) \<rparr>)"
proof -
  assume d: "f_node f = Directory" and m: "0 < m"
  have rd: "file_Read f n = Inl EISDIR" for n using d by (simp add: file_Read_def)
  have s2: "Scan m f \<lparr> sc_buf = [], sc_err = Some (ReadError EISDIR) \<rparr>
            = (None, f, \<lparr> sc_buf = [], sc_err = Some (ReadError EISDIR) \<rparr>)"
    by (simp add: Scan.simps ScanLines_def)
  have "Scan m f NewScanner = (None, f, \<lparr> sc_buf = [], sc_err = Some (ReadError EISDIR) \<rparr>)"
    using m rd s2 by (subst Scan.simps) (simp add: NewScanner_def)
  then show ?thesis by (simp add: scan_loop.simps)
qed

lemma Harvest_directory:
  "nodes fs path = Some Directory \<Longrightarrow> \<not> (0 < off \<and> s_maxbytes fs < off) \<Longrightarrow>
     Harvest lib fs clk sid path off =
       (Inl (ErrScanTranscript (ReadError EISDIR)), clk\<lparr>calls := Suc (calls clk)\<rparr>)"
  by (simp add: Harvest_def os_Open_def seek_or_stay time_Now_def scan_loop_directory maxLine_def
      scanner_Err_def)

lemma Harvest_regular:
  assumes node: "nodes fs path = Some (Regular c)"
    and seek: "\<not> (0 < off \<and> s_maxbytes fs < off)"
  shows "Harvest lib fs clk sid path off =
     (if too_long maxLine (drop (nat off) c) then Inl (ErrScanTranscript ErrTooLong)
      else Inr \<lparr> Messages = foldl (\<lambda>a l. harvest_line lib sid (now_at clk (calls clk)) l a) []
                               (transcript_lines (drop (nat off) c)),
                 NewOffset = new_offset fs (max (nat off) (length c)) \<rparr>,
      clk\<lparr>calls := Suc (calls clk)\<rparr>)"
proof -
  let ?f = "\<lparr> f_node = Regular c, f_limit = s_maxbytes fs, f_pos = nat off \<rparr>"
  let ?now = "now_at clk (calls clk)"
  obtain acc' f' s' where run: "scan_loop lib sid ?now maxLine ?f NewScanner [] = (acc', f', s')"
    by (cases "scan_loop lib sid ?now maxLine ?f NewScanner []") auto
  have pos: "0 < maxLine" by (simp add: maxLine_def)
  have inv: "scan_inv maxLine c ?f NewScanner" by (rule scan_inv_start) simp
  have pend: "pending c ?f NewScanner = drop (nat off) c"
    by (simp add: pending_def NewScanner_def)
  note ch = scan_loop_regular[OF pos inv run, unfolded pend]
  have H: "Harvest lib fs clk sid path off =
     (case scanner_Err s' of
        Some e \<Rightarrow> (Inl (ErrScanTranscript e), clk\<lparr>calls := Suc (calls clk)\<rparr>)
      | None \<Rightarrow> (Inr \<lparr> Messages = acc',
                       NewOffset = (case file_Seek f' 0 SeekCurrent of
                                      Inl _ \<Rightarrow> 0 | Inr (newOffset, _) \<Rightarrow> newOffset) \<rparr>,
                 clk\<lparr>calls := Suc (calls clk)\<rparr>))"
    using node seek run by (simp add: Harvest_def os_Open_def seek_or_stay time_Now_def)
  show ?thesis
  proof (cases "too_long maxLine (drop (nat off) c)")
    case True
    with ch have "sc_err s' = Some ErrTooLong" by simp
    with H True show ?thesis by (simp add: scanner_Err_def)
  next
    case False
    with ch have e: "sc_err s' = Some EOF"
      and a: "acc' = foldl (\<lambda>a l. harvest_line lib sid ?now l a) []
                       (transcript_lines (drop (nat off) c))"
      and p: "f_pos f' = max (nat off) (length c)" and l: "f_limit f' = s_maxbytes fs"
      by simp_all
    have "(case file_Seek f' 0 SeekCurrent of Inl _ \<Rightarrow> 0 | Inr (newOffset, _) \<Rightarrow> newOffset)
          = new_offset fs (max (nat off) (length c))"
      using p l by (simp add: file_Seek_def new_offset_def)
    with H False e a show ?thesis by (simp add: scanner_Err_def)
  qed
qed

section \<open>Properties of extraction\<close>

lemma collect_parts_eq:
  "collect_parts lib blocks parts = parts @ text_blocks lib blocks"
proof (induction blocks arbitrary: parts)
  case Nil
  then show ?case by (simp add: text_blocks_def)
next
  case (Cons b bs)
  show ?case
  proof (cases "json_block lib b")
    case None
    with Cons.IH[of parts] show ?thesis
      by (simp add: text_blocks_def)
  next
    case (Some tt)
    obtain ty tx where "tt = (ty, tx)" by (cases tt)
    with Some Cons.IH[of parts] Cons.IH[of "parts @ [tx]"] show ?thesis
      by (simp add: text_blocks_def)
  qed
qed

text \<open>
  C7. \<open>extractText\<close> is total and returns: the empty string on empty content; the decoded
  string when the content decodes as a string; otherwise, when the content decodes as a
  list of blocks, the texts of the blocks of type \<open>text\<close> with a non-empty text, in their
  order, joined by one newline (every other block is ignored); otherwise the raw content
  itself. Here decoding means that \<open>json.Unmarshal\<close> returns no error.
\<close>

theorem extractText_contract:
  "(raw = [] \<longrightarrow> extractText lib raw = []) \<and>
   (raw \<noteq> [] \<and> json_string lib raw = Some s \<longrightarrow> extractText lib raw = s) \<and>
   (raw \<noteq> [] \<and> json_string lib raw = None \<and> json_blocks lib raw = Some blocks \<longrightarrow>
      extractText lib raw = strings_Join (text_blocks lib blocks) [newline]) \<and>
   (raw \<noteq> [] \<and> json_string lib raw = None \<and> json_blocks lib raw = None \<longrightarrow>
      extractText lib raw = raw)"
  by (simp add: extractText_def collect_parts_eq)

theorem extractText_contract_witness:
  \<open>extractText sample_lib [] = [] \<and>
   extractText sample_lib ''"hi"'' = ''hi'' \<and>
   extractText sample_lib blocks_raw = [CHR ''a'', newline, CHR ''b''] \<and>
   extractText sample_lib line_garbage = line_garbage\<close>
proof -
  have s: \<open>json_string sample_lib ''"hi"'' = Some ''hi''\<close>
    by (simp add: sample_lib_def)
  have b0: "blocks_raw \<noteq> []" "json_string sample_lib blocks_raw = None"
    by (simp_all add: sample_lib_def blocks_raw_def)
  have b1: \<open>json_blocks sample_lib blocks_raw =
            Some [''{"type":"text","text":"a"}'', ''{"type":"tool_use","id":"x"}'',
                  ''{"type":"text","text":"b"}'']\<close>
    by (simp add: sample_lib_def)
  have b2: \<open>strings_Join (text_blocks sample_lib
              [''{"type":"text","text":"a"}'', ''{"type":"tool_use","id":"x"}'',
               ''{"type":"text","text":"b"}'']) [newline] = [CHR ''a'', newline, CHR ''b'']\<close>
    by (simp add: text_blocks_def sample_lib_def)
  have g: "line_garbage \<noteq> []" "json_string sample_lib line_garbage = None"
    "json_blocks sample_lib line_garbage = None"
    by (simp_all add: sample_lib_def line_garbage_def blocks_raw_def)
  from extractText_contract[of "[]" sample_lib]
    extractText_contract[of \<open>''"hi"''\<close> sample_lib "''hi''"]
    extractText_contract[of blocks_raw sample_lib _
      \<open>[''{"type":"text","text":"a"}'', ''{"type":"tool_use","id":"x"}'',
        ''{"type":"text","text":"b"}'']\<close>]
    extractText_contract[of line_garbage sample_lib]
    s b0 b1 b2 g
  show ?thesis by simp
qed

section \<open>Properties of Harvest\<close>

lemma harvest_line_retained:
  "harvest_line lib sid now line acc =
     acc @ (case retained_turn lib sid now line of None \<Rightarrow> [] | Some m \<Rightarrow> [m])"
  by (auto simp: harvest_line_def retained_turn_def split: option.splits)

lemma foldl_harvest_line:
  "foldl (\<lambda>a l. harvest_line lib sid now l a) acc ls =
     acc @ List.map_filter (retained_turn lib sid now) ls"
proof (induction ls arbitrary: acc)
  case Nil
  then show ?case by simp
next
  case (Cons l ls)
  have "foldl (\<lambda>a l. harvest_line lib sid now l a) acc (l # ls) =
        harvest_line lib sid now l acc @ List.map_filter (retained_turn lib sid now) ls"
    by (simp add: Cons.IH)
  also have "\<dots> = acc @ List.map_filter (retained_turn lib sid now) (l # ls)"
    by (simp add: harvest_line_retained split: option.splits)
  finally show ?case .
qed

lemma Harvest_success_cases:
  assumes "Harvest lib fs clk sid path off = (Inr res, clk')"
  obtains c where "nodes fs path = Some (Regular c)" "\<not> (0 < off \<and> s_maxbytes fs < off)"
    "\<not> too_long maxLine (drop (nat off) c)"
    "Messages res = List.map_filter (retained_turn lib sid (now_at clk (calls clk)))
                      (transcript_lines (drop (nat off) c))"
    "NewOffset res = new_offset fs (max (nat off) (length c))"
    "clk' = clk\<lparr>calls := Suc (calls clk)\<rparr>"
proof (cases "nodes fs path")
  case None
  from Harvest_open_fails[OF None] assms show ?thesis by simp
next
  case (Some n)
  show ?thesis
  proof (cases "0 < off \<and> s_maxbytes fs < off")
    case True
    with Harvest_seek_fails[OF Some] assms show ?thesis by simp
  next
    case seek: False
    show ?thesis
    proof (cases n)
      case Directory
      with Some Harvest_directory[OF _ seek] assms show ?thesis by simp
    next
      case (Regular c)
      with Some have node: "nodes fs path = Some (Regular c)" by simp
      from Harvest_regular[OF node seek, of lib clk sid] assms
      have "\<not> too_long maxLine (drop (nat off) c)"
        and "res = \<lparr> Messages = foldl (\<lambda>a l. harvest_line lib sid (now_at clk (calls clk)) l a) []
                                  (transcript_lines (drop (nat off) c)),
                    NewOffset = new_offset fs (max (nat off) (length c)) \<rparr>"
        and "clk' = clk\<lparr>calls := Suc (calls clk)\<rparr>"
        by (auto split: if_splits)
      with node seek that[of c] show ?thesis
        by (simp add: foldl_harvest_line)
    qed
  qed
qed

subsection \<open>Harvest on the sample files\<close>

lemma raw_lines_step:
  assumes "newline \<notin> set l"
  shows "raw_lines (l @ newline # rest) = l # raw_lines rest"
proof -
  have "first_line (newline # rest) = []" by (simp add: first_line_def)
  then have fl: "first_line (l @ newline # rest) = l"
    by (simp add: first_line_no_newline[OF assms])
  show ?thesis by (subst raw_lines.simps) (simp add: fl)
qed

lemmas sample_defs = line_user_def line_system_def line_stamped_def line_typed_user_def
  line_garbage_def payload_hi_def blocks_raw_def newline_def carriage_return_def

lemma Harvest_typed:
  "Harvest sample_lib sample_fs sample_clock ''sess-1'' ''/t/typed.jsonl'' 0 =
     (Inr \<lparr> Messages = [turn_hi ''u2'' 1700000000000000000], NewOffset = 69 \<rparr>,
      sample_clock\<lparr>calls := 1\<rparr>)"
proof -
  have n: "nodes sample_fs ''/t/typed.jsonl'' = Some (Regular (line_typed_user @ [newline]))"
    by (simp add: sample_fs_def)
  have s: "\<not> (0 < (0::int) \<and> s_maxbytes sample_fs < 0)" by simp
  have nl: "newline \<notin> set line_typed_user" by (simp add: sample_defs)
  have len: "length line_typed_user = 68" by (simp add: sample_defs)
  have ls: "raw_lines (line_typed_user @ [newline]) = [line_typed_user]"
    using raw_lines_step[OF nl, of "[]"] by (simp add: raw_lines_Nil)
  have r: "retained_turn sample_lib ''sess-1'' 1700000000000000000 line_typed_user
           = Some (turn_hi ''u2'' 1700000000000000000)"
    by (simp add: retained_turn_def sample_lib_def sample_defs turn_hi_def extractText_def
        parseTimestamp_def)
  have d: "dropCR line_typed_user = line_typed_user"
    by (simp add: dropCR_def sample_defs)
  show ?thesis
    unfolding Harvest_regular[OF n s]
    by (simp add: too_long_def transcript_lines_def ls d foldl_harvest_line
        r maxLine_def new_offset_def sample_fs_def sample_clock_def len)
qed

lemma Harvest_blank:
  "Harvest lib sample_fs sample_clock sid ''/t/blank.jsonl'' 0 =
     (Inr \<lparr> Messages = [], NewOffset = 1 \<rparr>, sample_clock\<lparr>calls := 1\<rparr>)"
proof -
  have n: "nodes sample_fs ''/t/blank.jsonl'' = Some (Regular ([] @ [newline]))"
    by (simp add: sample_fs_def)
  have s: "\<not> (0 < (0::int) \<and> s_maxbytes sample_fs < 0)" by simp
  have ls: "raw_lines [newline] = [[]]"
    using raw_lines_step[of "[]" "[]"] by (simp add: raw_lines_Nil)
  have r: "retained_turn lib sid t [] = None" for t
    by (simp add: retained_turn_def)
  show ?thesis
    unfolding Harvest_regular[OF n s]
    by (simp add: too_long_def transcript_lines_def ls dropCR_def foldl_harvest_line
        r maxLine_def new_offset_def sample_fs_def sample_clock_def)
qed


lemma Harvest_mixed:
  "Harvest sample_lib sample_fs sample_clock ''sess-1'' ''/t/mixed.jsonl'' 0 =
     (Inr \<lparr> Messages = [turn_hi ''u3'' 1718461800000000000, turn_hi ''u1'' 1700000000000000000],
             NewOffset = 282 \<rparr>,
      sample_clock\<lparr>calls := 1\<rparr>)"
proof -
  let ?c = "line_garbage @ [newline] @ line_system @ [newline] @
            line_stamped @ [newline] @ line_user @ [newline]"
  have n: "nodes sample_fs ''/t/mixed.jsonl'' = Some (Regular ?c)"
    by (simp add: sample_fs_def)
  have s: "\<not> (0 < (0::int) \<and> s_maxbytes sample_fs < 0)" by simp
  have nl: "newline \<notin> set line_garbage" "newline \<notin> set line_system"
    "newline \<notin> set line_stamped" "newline \<notin> set line_user"
    by (simp_all add: sample_defs)
  have len: "length line_garbage = 15" "length line_system = 86"
    "length line_stamped = 106" "length line_user = 71"
    by (simp_all add: sample_defs)
  have ls: "raw_lines ?c = [line_garbage, line_system, line_stamped, line_user]"
    using raw_lines_step[OF nl(1), of "line_system @ [newline] @ line_stamped @ [newline] @
                                      line_user @ [newline]"]
      raw_lines_step[OF nl(2), of "line_stamped @ [newline] @ line_user @ [newline]"]
      raw_lines_step[OF nl(3), of "line_user @ [newline]"]
      raw_lines_step[OF nl(4), of "[]"]
    by (simp add: raw_lines_Nil)
  have d: "dropCR line_garbage = line_garbage" "dropCR line_system = line_system"
    "dropCR line_stamped = line_stamped" "dropCR line_user = line_user"
    by (simp_all add: dropCR_def sample_defs)
  have r1: "retained_turn sample_lib ''sess-1'' 1700000000000000000 line_garbage = None"
    by (simp add: retained_turn_def sample_lib_def sample_defs)
  have r2: "retained_turn sample_lib ''sess-1'' 1700000000000000000 line_system = None"
    by (simp add: retained_turn_def sample_lib_def sample_defs)
  have r3: "retained_turn sample_lib ''sess-1'' 1700000000000000000 line_stamped
            = Some (turn_hi ''u3'' 1718461800000000000)"
    by (simp add: retained_turn_def sample_lib_def sample_defs turn_hi_def extractText_def
        parseTimestamp_def)
  have r4: "retained_turn sample_lib ''sess-1'' 1700000000000000000 line_user
            = Some (turn_hi ''u1'' 1700000000000000000)"
    by (simp add: retained_turn_def sample_lib_def sample_defs turn_hi_def extractText_def
        parseTimestamp_def)
  show ?thesis
    unfolding Harvest_regular[OF n s]
    by (simp add: too_long_def transcript_lines_def ls[simplified] d foldl_harvest_line
        r1 r2 r3 r4 maxLine_def new_offset_def sample_fs_def
        sample_clock_def len)
qed

subsection \<open>Errors\<close>




subsection \<open>Idempotence through the returned offset\<close>

text \<open>
  C2. If \<open>Harvest\<close> succeeds on a file and returns an offset, then harvesting the same
  unchanged file again from that offset succeeds, returns no turn, and returns the same
  offset.
\<close>

theorem Harvest_idempotent:
  assumes "within_limit fs path"
    and "Harvest lib fs clk sid path off = (Inr res, clk')"
  shows "\<exists>res2. Harvest lib fs clk2 sid path (NewOffset res)
                  = (Inr res2, clk2\<lparr>calls := Suc (calls clk2)\<rparr>) \<and>
               Messages res2 = [] \<and> NewOffset res2 = NewOffset res"
proof -
  from assms(2) obtain c where node: "nodes fs path = Some (Regular c)"
    and seek: "\<not> (0 < off \<and> s_maxbytes fs < off)"
    and off1: "NewOffset res = new_offset fs (max (nat off) (length c))"
    by (rule Harvest_success_cases)
  let ?p = "max (nat off) (length c)"
  from assms(1) node have "int (length c) \<le> s_maxbytes fs" by (simp add: within_limit_def)
  with seek have fits: "int ?p \<le> s_maxbytes fs" by (auto simp: max_def)
  with off1 have n1: "NewOffset res = int ?p" by (simp add: new_offset_def)
  have seek2: "\<not> (0 < NewOffset res \<and> s_maxbytes fs < NewOffset res)"
    using n1 fits by simp
  have past: "drop (nat (NewOffset res)) c = []" using n1 by simp
  have mx: "max (nat (NewOffset res)) (length c) = ?p" using n1 by simp
  show ?thesis
    unfolding Harvest_regular[OF node seek2] past mx
    using fits n1
    by (simp add: too_long_def raw_lines_Nil transcript_lines_def new_offset_def)
qed

theorem Harvest_idempotent_witness:
  "within_limit sample_fs ''/t/typed.jsonl'' \<and>
   Harvest sample_lib sample_fs sample_clock ''sess-1'' ''/t/typed.jsonl'' 0 =
     (Inr \<lparr> Messages = [turn_hi ''u2'' 1700000000000000000], NewOffset = 69 \<rparr>,
      sample_clock\<lparr>calls := 1\<rparr>) \<and>
   (\<exists>res2. Harvest sample_lib sample_fs (sample_clock\<lparr>calls := 1\<rparr>) ''sess-1''
             ''/t/typed.jsonl'' 69 = (Inr res2, sample_clock\<lparr>calls := 2\<rparr>) \<and>
           Messages res2 = [] \<and> NewOffset res2 = 69)"
proof -
  have w: "within_limit sample_fs ''/t/typed.jsonl''"
    by (simp add: within_limit_def sample_fs_def line_typed_user_def)
  from Harvest_idempotent[OF w Harvest_typed, of "sample_clock\<lparr>calls := 1\<rparr>"] w Harvest_typed
  show ?thesis by (simp add: numeral_2_eq_2)
qed

subsection \<open>The role filter\<close>

text \<open>
  C5, as the code has it. The turns of a successful \<open>Harvest\<close> are, in file order, the
  turns of the scanned lines that are retained, and a line is retained if and only if it
  is not empty, decodes, carries a payload, and the payload's role is user or assistant.
  The record's \<open>type\<close> is not consulted. Every other line contributes nothing and raises
  no error.
\<close>

theorem Harvest_retains:
  "(Harvest lib fs clk sid path off = (Inr res, clk') \<longrightarrow>
      (\<exists>c. nodes fs path = Some (Regular c) \<and>
           Messages res = List.map_filter (retained_turn lib sid (now_at clk (calls clk)))
                            (transcript_lines (drop (nat off) c)))) \<and>
   (retained_turn lib sid now line \<noteq> None \<longleftrightarrow>
      line \<noteq> [] \<and>
      (\<exists>tline msg. json_line lib line = Some tline \<and> tl_Message tline = Some msg \<and>
                   (mp_Role msg = ''user'' \<or> mp_Role msg = ''assistant'')))"
proof (intro conjI impI)
  assume "Harvest lib fs clk sid path off = (Inr res, clk')"
  then show "\<exists>c. nodes fs path = Some (Regular c) \<and>
           Messages res = List.map_filter (retained_turn lib sid (now_at clk (calls clk)))
                            (transcript_lines (drop (nat off) c))"
    by (rule Harvest_success_cases) blast
next
  show "retained_turn lib sid now line \<noteq> None \<longleftrightarrow>
      line \<noteq> [] \<and>
      (\<exists>tline msg. json_line lib line = Some tline \<and> tl_Message tline = Some msg \<and>
                   (mp_Role msg = ''user'' \<or> mp_Role msg = ''assistant''))"
    by (auto simp: retained_turn_def split: option.splits)
qed

theorem Harvest_retains_witness:
  "Harvest sample_lib sample_fs sample_clock ''sess-1'' ''/t/mixed.jsonl'' 0 =
     (Inr \<lparr> Messages = [turn_hi ''u3'' 1718461800000000000, turn_hi ''u1'' 1700000000000000000],
             NewOffset = 282 \<rparr>,
      sample_clock\<lparr>calls := 1\<rparr>) \<and>
   (\<exists>c. nodes sample_fs ''/t/mixed.jsonl'' = Some (Regular c) \<and>
        [turn_hi ''u3'' 1718461800000000000, turn_hi ''u1'' 1700000000000000000] =
          List.map_filter (retained_turn sample_lib ''sess-1'' (now_at sample_clock (calls sample_clock)))
            (transcript_lines (drop (nat 0) c))) \<and>
   line_system \<noteq> [] \<and> retained_turn sample_lib ''sess-1'' 0 line_system = None"
proof -
  have r: "retained_turn sample_lib ''sess-1'' 0 line_system = None"
    by (simp add: retained_turn_def sample_lib_def sample_defs)
  have ne: "line_system \<noteq> []" by (simp add: line_system_def)
  from Harvest_retains[of sample_lib sample_fs sample_clock "''sess-1''" "''/t/mixed.jsonl''" 0
      "\<lparr> Messages = [turn_hi ''u3'' 1718461800000000000, turn_hi ''u1'' 1700000000000000000],
         NewOffset = 282 \<rparr>" "sample_clock\<lparr>calls := 1\<rparr>" 0 line_system]
    Harvest_mixed r ne
  show ?thesis by simp
qed

text \<open>
  The claim as stated also requires the record's kind to be \<open>message\<close>. A record of
  kind \<open>user\<close> with a user payload decodes and is retained.
\<close>

theorem kind_not_consulted_counterexample:
  \<open>line_typed_user \<noteq> [] \<and>
   json_line sample_lib line_typed_user =
     Some \<lparr> tl_Type = ''user'', tl_UUID = ''u2'', tl_Parent = [],
            tl_Message = Some payload_hi, tl_Timestamp = [] \<rparr> \<and>
   ''user'' \<noteq> ''message'' \<and>
   Harvest sample_lib sample_fs sample_clock ''sess-1'' ''/t/typed.jsonl'' 0 =
     (Inr \<lparr> Messages = [turn_hi ''u2'' 1700000000000000000], NewOffset = 69 \<rparr>,
      sample_clock\<lparr>calls := 1\<rparr>)\<close>
  by (simp add: Harvest_typed) (simp add: sample_lib_def sample_defs)

subsection \<open>Timestamps\<close>




section \<open>Properties of the harvest step\<close>

text \<open>
  C4, as the code has it. When \<open>Harvest\<close> returns no turn, \<open>harvestMessages\<close> skips the
  commit: it returns nil and leaves the store, the stored offset included, exactly as it
  was. A call of \<open>SaveHarvestedMessages\<close> with no turn would instead store the offset that
  \<open>Harvest\<close> reported.
\<close>

theorem harvestMessages_skips_commit:
  assumes "GetOffset fl st path = (offset, None)"
    and "Harvest lib fs clk sid path offset = (Inr result, clk')"
    and "Messages result = []"
  shows "harvestMessages lib fs clk fl st sid path = (None, st, clk') \<and>
         SaveHarvestedMessages no_faults st [] path (NewOffset result) =
           (None, st\<lparr>transcript_offsets := (transcript_offsets st)(path \<mapsto> NewOffset result)\<rparr>)"
  using assms
  by (simp add: harvestMessages_def SaveHarvestedMessages_def no_faults_def upsert_offset_def
      tx_Commit_def)

theorem harvestMessages_skips_commit_witness:
  "GetOffset no_faults empty_store ''/t/blank.jsonl'' = (0, None) \<and>
   Harvest sample_lib sample_fs sample_clock ''sess-1'' ''/t/blank.jsonl'' 0 =
     (Inr \<lparr> Messages = [], NewOffset = 1 \<rparr>, sample_clock\<lparr>calls := 1\<rparr>) \<and>
   harvestMessages sample_lib sample_fs sample_clock no_faults empty_store ''sess-1''
     ''/t/blank.jsonl'' = (None, empty_store, sample_clock\<lparr>calls := 1\<rparr>) \<and>
   SaveHarvestedMessages no_faults empty_store [] ''/t/blank.jsonl'' 1 =
     (None, empty_store\<lparr>transcript_offsets := [''/t/blank.jsonl'' \<mapsto> 1]\<rparr>)"
proof -
  have g: "GetOffset no_faults empty_store ''/t/blank.jsonl'' = (0, None)"
    by (simp add: GetOffset_def no_faults_def empty_store_def)
  have e: "transcript_offsets empty_store = Map.empty" by (simp add: empty_store_def)
  from harvestMessages_skips_commit[OF g Harvest_blank, of sample_lib "''sess-1''"] g
    Harvest_blank[of sample_lib "''sess-1''"] e
  show ?thesis by simp
qed

text \<open>
  The claim as stated makes the two agree. A file holding one empty line is harvested
  from the stored offset 0 to offset 1 with no turn; after the harvest step the stored
  offset is still 0, after a commit of no turns it would be 1.
\<close>

theorem skipped_commit_counterexample:
  "fst (Harvest sample_lib sample_fs sample_clock ''sess-1'' ''/t/blank.jsonl''
          (fst (GetOffset no_faults empty_store ''/t/blank.jsonl'')))
     = Inr \<lparr> Messages = [], NewOffset = 1 \<rparr> \<and>
   fst (GetOffset no_faults empty_store ''/t/blank.jsonl'') < 1 \<and>
   fst (GetOffset no_faults
          (fst (snd (harvestMessages sample_lib sample_fs sample_clock no_faults empty_store
                       ''sess-1'' ''/t/blank.jsonl'')))
          ''/t/blank.jsonl'') = 0 \<and>
   fst (GetOffset no_faults
          (snd (SaveHarvestedMessages no_faults empty_store [] ''/t/blank.jsonl'' 1))
          ''/t/blank.jsonl'') = 1"
proof -
  have g: "GetOffset no_faults empty_store ''/t/blank.jsonl'' = (0, None)"
    by (simp add: GetOffset_def no_faults_def empty_store_def)
  have h: "harvestMessages sample_lib sample_fs sample_clock no_faults empty_store ''sess-1''
             ''/t/blank.jsonl'' = (None, empty_store, sample_clock\<lparr>calls := 1\<rparr>)"
    by (simp add: harvestMessages_def g Harvest_blank)
  have s: "SaveHarvestedMessages no_faults empty_store [] ''/t/blank.jsonl'' 1 =
             (None, empty_store\<lparr>transcript_offsets := [''/t/blank.jsonl'' \<mapsto> 1]\<rparr>)"
    by (simp add: SaveHarvestedMessages_def no_faults_def upsert_offset_def tx_Commit_def
        empty_store_def)
  show ?thesis
    by (simp add: g h s Harvest_blank) (simp add: GetOffset_def no_faults_def)
qed

end
